theory Spec2Isabelle
  imports Complex_Main
begin

section \<open>Tool broker (class ToolBroker)\<close>

text \<open>
  The broker keeps four maps: the registered providers, their health status, the retry
  counters keyed by the text \<open>provider-operation\<close>, and the fallback chains. The handles
  stored in \<open>providers\<close> are opaque SDK objects, so only the names are kept, in insertion
  order. JavaScript runs each synchronous stretch of a task to completion and lets other
  tasks run wherever a task awaits; the waits of \<open>callProvider\<close> and what others do to
  the maps meanwhile are part of the model below.

  The one thing added to the state is \<open>netcalls\<close>: the trace of the requests that the
  call methods (\<open>callOpenAI\<close> and the others) hand to a provider SDK, as pairs of provider
  and operation. The answer of the outside world to the \<open>n\<close>-th of them is given by an
  environment function. The probes of the health monitor and the requests of other
  invocations are not in this trace.
\<close>

datatype response = Response string

record health =
  healthy :: bool
  latency :: "nat option"
  lastCheck :: nat
  consecutiveFailures :: nat
  error :: "string option"

record broker =
  providers :: "string list"
  healthStatus :: "string \<rightharpoonup> health"
  retryAttempts :: "string \<rightharpoonup> nat"
  fallbacks :: "string \<rightharpoonup> string list"
  netcalls :: "(string \<times> string) list"

text \<open>One constructor for each \<open>throw\<close> site of the class; \<open>CallFailed\<close> is an
  error raised by a provider SDK or the network.\<close>

datatype broker_error =
    ProviderNotAvailable string
  | ProviderUnhealthy string nat
  | MaxRetriesExceeded string string
  | UnknownProvider string
  | UnknownOperation string string
  | CallFailed string
  | AllProvidersFailed string

type_synonym env = "nat \<Rightarrow> string \<Rightarrow> string \<Rightarrow> string + response"

type_synonym 'a outcome = "(broker_error + 'a) \<times> broker"

text \<open>An awaited SDK request: it is recorded in the trace and the environment answers.\<close>

definition request :: "env \<Rightarrow> string \<Rightarrow> string \<Rightarrow> broker \<Rightarrow> response outcome" where
  "request env p operation s =
     ((case env (length (netcalls s)) p operation of
         Inl msg \<Rightarrow> Inl (CallFailed msg)
       | Inr r \<Rightarrow> Inr r),
      s\<lparr>netcalls := netcalls s @ [(p, operation)]\<rparr>)"

definition callOpenAI :: "env \<Rightarrow> string \<Rightarrow> broker \<Rightarrow> response outcome" where
  "callOpenAI env operation s =
     (if operation = ''chat'' then request env ''openai'' operation s
      else if operation = ''transcribe'' then request env ''openai'' operation s
      else (Inl (UnknownOperation ''OpenAI'' operation), s))"

definition callElevenLabs :: "env \<Rightarrow> string \<Rightarrow> broker \<Rightarrow> response outcome" where
  "callElevenLabs env operation s =
     (if operation = ''synthesize'' then request env ''elevenlabs'' operation s
      else if operation = ''voices'' then request env ''elevenlabs'' operation s
      else (Inl (UnknownOperation ''ElevenLabs'' operation), s))"

definition callTwilio :: "env \<Rightarrow> string \<Rightarrow> broker \<Rightarrow> response outcome" where
  "callTwilio env operation s =
     (if operation = ''call'' then request env ''twilio'' operation s
      else if operation = ''message'' then request env ''twilio'' operation s
      else (Inl (UnknownOperation ''Twilio'' operation), s))"

definition callPinecone :: "env \<Rightarrow> string \<Rightarrow> broker \<Rightarrow> response outcome" where
  "callPinecone env operation s =
     (if operation = ''upsert'' then request env ''pinecone'' operation s
      else if operation = ''query'' then request env ''pinecone'' operation s
      else (Inl (UnknownOperation ''Pinecone'' operation), s))"

definition callSupabase :: "env \<Rightarrow> string \<Rightarrow> broker \<Rightarrow> response outcome" where
  "callSupabase env operation s =
     (if operation = ''insert'' then request env ''supabase'' operation s
      else if operation = ''select'' then request env ''supabase'' operation s
      else if operation = ''update'' then request env ''supabase'' operation s
      else if operation = ''delete'' then request env ''supabase'' operation s
      else (Inl (UnknownOperation ''Supabase'' operation), s))"

definition callTelegram :: "env \<Rightarrow> string \<Rightarrow> broker \<Rightarrow> response outcome" where
  "callTelegram env operation s =
     (if operation = ''sendMessage'' then request env ''telegram'' operation s
      else if operation = ''sendPhoto'' then request env ''telegram'' operation s
      else (Inl (UnknownOperation ''Telegram'' operation), s))"

definition callBrave :: "env \<Rightarrow> string \<Rightarrow> broker \<Rightarrow> response outcome" where
  "callBrave env operation s =
     (if operation = ''search'' then request env ''brave'' operation s
      else (Inl (UnknownOperation ''Brave'' operation), s))"

text \<open>The \<open>switch (providerName)\<close> inside the \<open>try\<close> block of \<open>callProvider\<close>. An
  operation that a call method does not know is an error thrown before any request
  (\<open>callPinecone\<close> has taken its index handle by then, which is a local object).\<close>

definition dispatch :: "env \<Rightarrow> string \<Rightarrow> string \<Rightarrow> broker \<Rightarrow> response outcome" where
  "dispatch env providerName operation s =
     (if providerName = ''openai'' then callOpenAI env operation s
      else if providerName = ''elevenlabs'' then callElevenLabs env operation s
      else if providerName = ''twilio'' then callTwilio env operation s
      else if providerName = ''pinecone'' then callPinecone env operation s
      else if providerName = ''supabase'' then callSupabase env operation s
      else if providerName = ''telegram'' then callTelegram env operation s
      else if providerName = ''brave'' then callBrave env operation s
      else (Inl (UnknownProvider providerName), s))"

text \<open>The key \<open>`${providerName}-${operation}`\<close> of the retry map.\<close>

definition retryKey :: "string \<Rightarrow> string \<Rightarrow> string" where
  "retryKey providerName operation = providerName @ ''-'' @ operation"

text \<open>\<open>options.maxRetries || 3\<close>: an absent option and the value 0 both give 3.\<close>

definition maxRetriesOf :: "nat option \<Rightarrow> nat" where
  "maxRetriesOf opt = (case opt of None \<Rightarrow> 3 | Some n \<Rightarrow> if n = 0 then 3 else n)"

text \<open>\<open>this.retryAttempts.get(key) || 0\<close>.\<close>

definition currentAttemptOf :: "broker \<Rightarrow> string \<Rightarrow> nat" where
  "currentAttemptOf s key = (case retryAttempts s key of None \<Rightarrow> 0 | Some n \<Rightarrow> n)"

text \<open>The circuit-breaker test of \<open>callProvider\<close>:
  \<open>health && !health.healthy && health.consecutiveFailures > 3\<close>.\<close>

definition unhealthy :: "broker \<Rightarrow> string \<Rightarrow> nat option" where
  "unhealthy s providerName =
     (case healthStatus s providerName of
        None \<Rightarrow> None
      | Some h \<Rightarrow> if \<not> healthy h \<and> consecutiveFailures h > 3
                 then Some (consecutiveFailures h) else None)"

text \<open>\<open>this.retryAttempts.set(key, n)\<close> and \<open>this.retryAttempts.delete(key)\<close>.\<close>

definition setAttempts :: "string \<Rightarrow> nat \<Rightarrow> broker \<Rightarrow> broker" where
  "setAttempts key n s = s\<lparr>retryAttempts := fun_upd (retryAttempts s) key (Some n)\<rparr>"

definition deleteAttempts :: "string \<Rightarrow> broker \<Rightarrow> broker" where
  "deleteAttempts key s = s\<lparr>retryAttempts := fun_upd (retryAttempts s) key None\<rparr>"

subsection \<open>Health monitoring\<close>

text \<open>
  What one liveness probe of \<open>performHealthChecks\<close> meets: the awaited request answers
  (the flag says whether the answer passes the provider's test, for instance
  \<open>response.choices?.length > 0\<close>) or it throws. \<open>elevenlabs\<close> and every provider without
  a case of its own are taken as healthy without a request; for \<open>supabase\<close> any answer
  counts as healthy.
\<close>

datatype probe = Answered bool | Threw string

definition probeHealthy :: "string \<Rightarrow> probe \<Rightarrow> string + bool" where
  "probeHealthy name p =
     (if name = ''openai'' \<or> name = ''twilio'' \<or> name = ''brave'' then
        (case p of Answered ok \<Rightarrow> Inr ok | Threw msg \<Rightarrow> Inl msg)
      else if name = ''supabase'' then
        (case p of Answered ok \<Rightarrow> Inr True | Threw msg \<Rightarrow> Inl msg)
      else Inr True)"

text \<open>\<open>this.healthStatus.get(name)?.consecutiveFailures || 0\<close>.\<close>

definition failuresOf :: "broker \<Rightarrow> string \<Rightarrow> nat" where
  "failuresOf s name = (case healthStatus s name of None \<Rightarrow> 0 | Some h \<Rightarrow> consecutiveFailures h)"

definition setHealth :: "string \<Rightarrow> health \<Rightarrow> broker \<Rightarrow> broker" where
  "setHealth name h s = s\<lparr>healthStatus := fun_upd (healthStatus s) name (Some h)\<rparr>"

text \<open>The body of the loop of \<open>performHealthChecks\<close> for one provider; \<open>started\<close> and
  \<open>finished\<close> are the two readings of the clock.\<close>

definition checkProvider :: "(string \<Rightarrow> probe) \<Rightarrow> nat \<Rightarrow> nat \<Rightarrow> string \<Rightarrow> broker \<Rightarrow> broker" where
  "checkProvider probes started finished name s =
     (case probeHealthy name (probes name) of
        Inr isHealthy \<Rightarrow>
          let s1 = setHealth name
                     \<lparr>healthy = isHealthy, latency = Some (finished - started),
                      lastCheck = finished,
                      consecutiveFailures = (if isHealthy then 0 else failuresOf s name + 1),
                      error = None\<rparr> s
          in if isHealthy then deleteAttempts name s1 else s1
      | Inl msg \<Rightarrow>
          setHealth name
            \<lparr>healthy = False, latency = None, lastCheck = finished,
             consecutiveFailures = failuresOf s name + 1, error = Some msg\<rparr> s)"

definition performHealthChecks :: "(string \<Rightarrow> probe) \<Rightarrow> nat \<Rightarrow> nat \<Rightarrow> broker \<Rightarrow> broker" where
  "performHealthChecks probes started finished s =
     fold (checkProvider probes started finished) (providers s) s"

subsection \<open>What other tasks do while a call waits\<close>

text \<open>
  \<open>callProvider\<close> awaits twice in a pass: the request, and the backoff delay before it
  calls itself again. While it waits, other tasks run on the same maps: the health
  monitor checks a registered provider, another invocation of \<open>callProvider\<close> gets its
  answer and deletes the counter of its pair, or catches its error and stores the count
  it has computed. These are the events. A schedule lists, wait by wait, the events that
  occur during the waits of one call; when it has run out, nothing occurs any more.
  An event may store any count, which covers every count another invocation can have
  computed. Providers are registered at start-up only, so registration is not an event.
  A schedule is finite because a call that returns has waited finitely many times; the
  call that others reset for ever never returns, and has no outcome to speak of.
\<close>

datatype event =
    Checked "string \<Rightarrow> probe" nat nat string
  | Succeeded string string
  | Failed string string nat

fun occur :: "event \<Rightarrow> broker \<Rightarrow> broker" where
  "occur (Checked probes started finished name) s =
     (if name \<in> set (providers s) then checkProvider probes started finished name s else s)"
| "occur (Succeeded p operation) s = deleteAttempts (retryKey p operation) s"
| "occur (Failed p operation n) s = setAttempts (retryKey p operation) n s"

definition meanwhile :: "event list \<Rightarrow> broker \<Rightarrow> broker" where
  "meanwhile evs s = fold occur evs s"

type_synonym schedule = "event list list"

text \<open>The entry of a schedule that is due next; none when the schedule has run out.\<close>

definition nextOf :: "'a list list \<Rightarrow> 'a list" where
  "nextOf sched = (case sched of [] \<Rightarrow> [] | evs # rest \<Rightarrow> evs)"

subsection \<open>Calls\<close>

text \<open>
  \<open>callProvider\<close>. The entry checks and the request are one synchronous stretch; the
  first wait is for the answer. After it, a success deletes the counter of the pair, and a
  failure stores \<open>currentAttempt + 1\<close>, computed from the count read at entry. While that
  is below \<open>maxRetries\<close> the call waits \<open>2 ^ currentAttempt\<close> seconds (the second wait) and
  calls itself again, reading the maps anew in its entry checks; otherwise it rethrows
  the error it caught. The recursion ends because the schedule gets shorter and, once it
  has run out, each call starts from a larger counter.
\<close>

function callProvider ::
  "env \<Rightarrow> string \<Rightarrow> string \<Rightarrow> nat option \<Rightarrow> schedule \<Rightarrow> broker \<Rightarrow> response outcome" where
  "callProvider env providerName operation maxRetriesOpt sched s =
     (if providerName \<notin> set (providers s) then (Inl (ProviderNotAvailable providerName), s)
      else case unhealthy s providerName of
        Some n \<Rightarrow> (Inl (ProviderUnhealthy providerName n), s)
      | None \<Rightarrow>
          let maxRetries = maxRetriesOf maxRetriesOpt;
              currentAttempt = currentAttemptOf s (retryKey providerName operation)
          in if currentAttempt \<ge> maxRetries
             then (Inl (MaxRetriesExceeded providerName operation), s)
             else case dispatch env providerName operation s of
               (Inr result, s1) \<Rightarrow>
                 (Inr result,
                  deleteAttempts (retryKey providerName operation) (meanwhile (nextOf sched) s1))
             | (Inl err, s1) \<Rightarrow>
                 let nextAttempt = currentAttempt + 1;
                     s2 = setAttempts (retryKey providerName operation) nextAttempt
                            (meanwhile (nextOf sched) s1)
                 in if nextAttempt < maxRetries
                    then callProvider env providerName operation maxRetriesOpt (drop 2 sched)
                           (meanwhile (nextOf (drop 1 sched)) s2)
                    else (Inl err, s2))"
  by pat_completeness auto
termination
  by (relation "measures [\<lambda>(env, p, operation, opt, sched, s). length sched,
         \<lambda>(env, p, operation, opt, sched, s).
           maxRetriesOf opt - currentAttemptOf s (retryKey p operation)]")
     (auto simp: currentAttemptOf_def setAttempts_def nextOf_def meanwhile_def
        split: list.splits)

declare callProvider.simps [simp del]

text \<open>
  \<open>callWithFallback\<close>: the chain is \<open>this.fallbacks.get(service) || [service]\<close>; each
  provider is tried in order, a failure is logged and dropped, and the first success is
  returned. After the loop a fresh error naming the service is thrown. Each call of the
  chain has a schedule of its own.
\<close>

fun tryChain ::
  "env \<Rightarrow> string list \<Rightarrow> string \<Rightarrow> nat option \<Rightarrow> schedule list \<Rightarrow> broker \<Rightarrow>
   response option \<times> broker" where
  "tryChain env [] operation maxRetriesOpt scheds s = (None, s)"
| "tryChain env (providerName # rest) operation maxRetriesOpt scheds s =
     (case callProvider env providerName operation maxRetriesOpt (nextOf scheds) s of
        (Inr result, s1) \<Rightarrow> (Some result, s1)
      | (Inl err, s1) \<Rightarrow> tryChain env rest operation maxRetriesOpt (drop 1 scheds) s1)"

definition fallbackChain :: "broker \<Rightarrow> string \<Rightarrow> string list" where
  "fallbackChain s service = (case fallbacks s service of None \<Rightarrow> [service] | Some chain \<Rightarrow> chain)"

definition callWithFallback ::
  "env \<Rightarrow> string \<Rightarrow> string \<Rightarrow> nat option \<Rightarrow> schedule list \<Rightarrow> broker \<Rightarrow> response outcome" where
  "callWithFallback env service operation maxRetriesOpt scheds s =
     (case tryChain env (fallbackChain s service) operation maxRetriesOpt scheds s of
        (Some result, s1) \<Rightarrow> (Inr result, s1)
      | (None, s1) \<Rightarrow> (Inl (AllProvidersFailed service), s1))"

subsection \<open>Start-up\<close>

text \<open>
  The constructor starts from empty maps. \<open>initializeProviders\<close> registers, in this
  order, each provider whose credentials are in the process environment and whose client
  could be built (\<open>configured\<close> says which), then \<open>setupFallbacks\<close> stores the four fixed
  chains. \<open>Map.prototype.set\<close> leaves a key that is already there in its place, so
  running the initialisation a second time, as the server does, changes nothing.
\<close>

definition newBroker :: broker where
  "newBroker =
     \<lparr>providers = [], healthStatus = Map.empty, retryAttempts = Map.empty,
      fallbacks = Map.empty, netcalls = []\<rparr>"

definition registerProvider :: "string \<Rightarrow> broker \<Rightarrow> broker" where
  "registerProvider p s =
     (if p \<in> set (providers s) then s else s\<lparr>providers := providers s @ [p]\<rparr>)"

definition providerNames :: "string list" where
  "providerNames = [''openai'', ''elevenlabs'', ''twilio'', ''pinecone'', ''supabase'',
                    ''telegram'', ''brave'']"

definition setFallback :: "string \<Rightarrow> string list \<Rightarrow> broker \<Rightarrow> broker" where
  "setFallback service chain s = s\<lparr>fallbacks := fun_upd (fallbacks s) service (Some chain)\<rparr>"

definition setupFallbacks :: "broker \<Rightarrow> broker" where
  "setupFallbacks s =
     setFallback ''vector'' [''pinecone'', ''sqlite'']
       (setFallback ''search'' [''brave'', ''duckduckgo'']
          (setFallback ''tts'' [''elevenlabs'', ''browser'']
             (setFallback ''llm'' [''openai'', ''local''] s)))"

definition initializeProviders :: "(string \<Rightarrow> bool) \<Rightarrow> broker \<Rightarrow> broker" where
  "initializeProviders configured s =
     setupFallbacks (fold registerProvider (filter configured providerNames) s)"

text \<open>
  The states the broker can be in: those reached from the constructor by the steps of
  the class, whatever the outside world answers. The initialisation and the round of
  health checks both wait for the network between two providers, so their single steps
  are steps of their own here as well.
\<close>

inductive reachable :: "broker \<Rightarrow> bool" where
  constructed: "reachable newBroker"
| registered: "reachable s \<Longrightarrow> p \<in> set providerNames \<Longrightarrow> reachable (registerProvider p s)"
| initialized: "reachable s \<Longrightarrow> reachable (initializeProviders configured s)"
| probed: "reachable s \<Longrightarrow> p \<in> set (providers s) \<Longrightarrow>
             reachable (checkProvider probes started finished p s)"
| health: "reachable s \<Longrightarrow> reachable (performHealthChecks probes started finished s)"
| occurred: "reachable s \<Longrightarrow> reachable (occur e s)"
| call: "reachable s \<Longrightarrow>
           reachable (snd (callProvider env providerName operation maxRetriesOpt sched s))"
| fallback: "reachable s \<Longrightarrow>
               reachable (snd (callWithFallback env service operation maxRetriesOpt scheds s))"

section \<open>Intelligence router (class IntelligenceRouter)\<close>

text \<open>
  Clock readings (\<open>Date.now()\<close>) are integers in milliseconds and are passed in. Amounts
  of money are JavaScript numbers in the source and real numbers here; the budget
  scenario below only meets values that a double holds exactly.
\<close>

record intent =
  category :: string
  confidence :: real
  complexity :: string
  urgency :: string
  requiresTools :: bool
  estimatedTokens :: nat
  hasContext :: "bool option"
  isFollowUp :: "bool option"

record routeContext =
  isVoice :: bool
  isCall :: bool
  conversationId :: "string option"
  previousMessage :: "string option"
  preferredAgent :: "string option"

record qosTier =
  name :: string
  maxTokens :: nat
  temperature :: real
  model :: string
  timeoutMs :: nat
  priority :: nat
  costMultiplier :: real
  description :: string

record qosTiers =
  realtime :: qosTier
  interactive :: qosTier
  batch :: qosTier

definition initQoSTiers :: qosTiers where
  "initQoSTiers =
     \<lparr>realtime =
        \<lparr>name = ''realtime'', maxTokens = 512, temperature = 3 / 10,
         model = ''gpt-3.5-turbo'', timeoutMs = 800, priority = 1, costMultiplier = 3 / 2,
         description = ''PTT voice & calls - ultra fast''\<rparr>,
      interactive =
        \<lparr>name = ''interactive'', maxTokens = 1024, temperature = 7 / 10,
         model = ''gpt-4'', timeoutMs = 3000, priority = 2, costMultiplier = 1,
         description = ''chat & light tools - balanced''\<rparr>,
      batch =
        \<lparr>name = ''batch'', maxTokens = 4096, temperature = 1 / 2,
         model = ''gpt-4'', timeoutMs = 15000, priority = 3, costMultiplier = 7 / 10,
         description = ''research/long tasks - thorough''\<rparr>\<rparr>"

text \<open>Entries of the three memory maps and of the intent cache all carry a
  \<open>timestamp\<close>; \<open>cleanupMemory\<close> reads nothing else.\<close>

record stamped =
  timestamp :: int

record memoryItem = stamped +
  content :: string

record summaryItem = stamped +
  summary :: string
  accessCount :: nat

record cacheEntry = stamped +
  cachedIntent :: intent

record pinnedItem =
  pinnedContent :: string
  pinnedAt :: int

record decay =
  decayShortTerm :: int
  decayMidTerm :: int
  decayLongTerm :: int

text \<open>A JavaScript \<open>Map\<close> iterates in insertion order, and \<open>slice(-10)\<close> depends on that
  order, so the memory maps are association lists; \<open>pins\<close> is a \<open>Set\<close> of objects made
  afresh by each \<open>pinToMemory\<close>, hence a list as well.\<close>

record memoryShaping =
  shortTerm :: "(string \<times> memoryItem) list"
  midTerm :: "(string \<times> summaryItem) list"
  longTerm :: "(string \<times> memoryItem) list"
  pins :: "pinnedItem list"
  decayOf :: decay

record costTracker =
  daily :: real
  monthly :: real
  requests :: nat
  tokens :: nat

record router =
  toolBroker :: broker
  intentCache :: "string \<rightharpoonup> cacheEntry"
  memoryStore :: memoryShaping
  costs :: costTracker

definition initMemoryShaping :: memoryShaping where
  "initMemoryShaping =
     \<lparr>shortTerm = [], midTerm = [], longTerm = [], pins = [],
      decayOf = \<lparr>decayShortTerm = 3600000, decayMidTerm = 86400000,
                 decayLongTerm = 604800000\<rparr>\<rparr>"

definition newRouter :: "broker \<Rightarrow> router" where
  "newRouter b =
     \<lparr>toolBroker = b, intentCache = Map.empty, memoryStore = initMemoryShaping,
      costs = \<lparr>daily = 0, monthly = 0, requests = 0, tokens = 0\<rparr>\<rparr>"

subsection \<open>Intent classification and its cache\<close>





subsection \<open>Quality-of-service tier\<close>

text \<open>\<open>this.qosTiers\<close> is assigned once, in the constructor, from \<open>initQoSTiers\<close>.\<close>

definition selectQoSTier :: "intent \<Rightarrow> routeContext \<Rightarrow> qosTier" where
  "selectQoSTier i ctx =
     (if isVoice ctx \<or> isCall ctx then realtime initQoSTiers
      else if urgency i = ''high'' then interactive initQoSTiers
      else if complexity i = ''complex'' \<and> category i = ''research'' then batch initQoSTiers
      else interactive initQoSTiers)"

subsection \<open>Memory\<close>

text \<open>\<open>Map.prototype.set\<close>: an existing key keeps its place, a new key goes last.\<close>

fun mapSet :: "'k \<Rightarrow> 'v \<Rightarrow> ('k \<times> 'v) list \<Rightarrow> ('k \<times> 'v) list" where
  "mapSet k v [] = [(k, v)]"
| "mapSet k v ((k', v') # rest) =
     (if k' = k then (k, v) # rest else (k', v') # mapSet k v rest)"

datatype memoryType = ShortTerm | MidTerm | LongTerm

text \<open>The loop of \<open>cleanupMemory\<close>: an entry goes when \<open>now - value.timestamp > maxAge\<close>.\<close>

definition sweep :: "int \<Rightarrow> int \<Rightarrow> (string \<times> 'a stamped_scheme) list \<Rightarrow> (string \<times> 'a stamped_scheme) list" where
  "sweep maxAge now store = filter (\<lambda>(key, v). \<not> (now - timestamp v > maxAge)) store"

definition cleanupMemory :: "memoryType \<Rightarrow> int \<Rightarrow> router \<Rightarrow> router" where
  "cleanupMemory type now r =
     (let m = memoryStore r in
      case type of
        ShortTerm \<Rightarrow> r\<lparr>memoryStore := m\<lparr>shortTerm := sweep (decayShortTerm (decayOf m)) now (shortTerm m)\<rparr>\<rparr>
      | MidTerm \<Rightarrow> r\<lparr>memoryStore := m\<lparr>midTerm := sweep (decayMidTerm (decayOf m)) now (midTerm m)\<rparr>\<rparr>
      | LongTerm \<Rightarrow> r\<lparr>memoryStore := m\<lparr>longTerm := sweep (decayLongTerm (decayOf m)) now (longTerm m)\<rparr>\<rparr>)"

text \<open>\<open>storeShortTermMemory\<close> reads the clock for the new entry (\<open>now\<close>) and again inside
  the cleanup it runs (\<open>swept\<close>).\<close>

definition storeShortTermMemory :: "int \<Rightarrow> int \<Rightarrow> string \<Rightarrow> string \<Rightarrow> router \<Rightarrow> router" where
  "storeShortTermMemory now swept key v r =
     cleanupMemory ShortTerm swept
       (r\<lparr>memoryStore := (memoryStore r)\<lparr>shortTerm :=
            mapSet key \<lparr>timestamp = now, content = v\<rparr> (shortTerm (memoryStore r))\<rparr>\<rparr>)"

definition pinToMemory :: "int \<Rightarrow> string \<Rightarrow> router \<Rightarrow> router" where
  "pinToMemory now item r =
     r\<lparr>memoryStore := (memoryStore r)\<lparr>pins :=
          pins (memoryStore r) @ [\<lparr>pinnedContent = item, pinnedAt = now\<rparr>]\<rparr>\<rparr>"

record memoryContext =
  ctxShortTerm :: "memoryItem list"
  ctxMidTerm :: "summaryItem list"
  ctxLongTerm :: "memoryItem list"
  ctxPins :: "pinnedItem list"

text \<open>\<open>assembleMemoryContext\<close>: the last ten short-term values, the mid-term entry of the
  intent's category when there is one, and every pin. It reads no clock and changes
  nothing; the branch for \<open>pinecone\<close> only writes to the console.\<close>

definition assembleMemoryContext :: "string \<Rightarrow> intent \<Rightarrow> router \<Rightarrow> memoryContext" where
  "assembleMemoryContext message i r =
     (let m = memoryStore r in
      \<lparr>ctxShortTerm = map snd (drop (length (shortTerm m) - 10) (shortTerm m)),
       ctxMidTerm =
         (if category i \<noteq> [] then
            (case map_of (midTerm m) (category i) of None \<Rightarrow> [] | Some projectContext \<Rightarrow> [projectContext])
          else []),
       ctxLongTerm = [],
       ctxPins = pins m\<rparr>)"

subsection \<open>Cost sentinel\<close>

text \<open>\<open>parseFloat(process.env.DAILY_BUDGET_USD) || 10.0\<close>: the argument is \<open>None\<close> when the
  variable is unset or not a number; 0 also gives the default.\<close>

definition dailyBudgetOf :: "real option \<Rightarrow> real" where
  "dailyBudgetOf v = (case v of None \<Rightarrow> 10 | Some b \<Rightarrow> if b = 0 then 10 else b)"

definition estimateRequestCost :: "qosTier \<Rightarrow> string \<Rightarrow> real" where
  "estimateRequestCost tier message =
     (let estimatedTokens = (length message + 2) div 3;
          modelCost = (if model tier = ''gpt-3.5-turbo'' then 15 / 10000
                       else if model tier = ''gpt-4'' then 3 / 100
                       else 15 / 10000)
      in (real estimatedTokens / 1000) * modelCost * costMultiplier tier)"

text \<open>The object returned by \<open>checkCostSentinel\<close>, without the \<open>reason\<close> text of the
  refusal (it prints the same three numbers).\<close>

datatype costCheck =
    Refused (currentSpend: real) (refusedCost: real) (dailyBudget: real)
  | Allowed (estimatedCost: real) (remainingBudget: real)

definition checkCostSentinel :: "real option \<Rightarrow> qosTier \<Rightarrow> string \<Rightarrow> router \<Rightarrow> costCheck \<times> router" where
  "checkCostSentinel budgetVar tier message r =
     (let budget = dailyBudgetOf budgetVar;
          cost = estimateRequestCost tier message
      in if daily (costs r) + cost > budget
         then (Refused (daily (costs r)) cost budget, r)
         else
           let r1 = r\<lparr>costs := (costs r)\<lparr>daily := daily (costs r) + cost,
                                          requests := requests (costs r) + 1\<rparr>\<rparr>
           in (Allowed cost (budget - daily (costs r1)), r1))"

definition resetDailyCosts :: "router \<Rightarrow> router" where
  "resetDailyCosts r = r\<lparr>costs := (costs r)\<lparr>daily := 0, requests := 0\<rparr>\<rparr>"

subsection \<open>Predicates and sample states used in the statements\<close>






text \<open>What \<open>performHealthChecks\<close> maintains: only registered providers have a health
  entry, and an entry marked healthy has no consecutive failures.\<close>

definition health_ok :: "broker \<Rightarrow> bool" where
  "health_ok s \<longleftrightarrow>
     (\<forall>p h. healthStatus s p = Some h \<longrightarrow>
        p \<in> set (providers s) \<and> (healthy h \<longrightarrow> consecutiveFailures h = 0))"

text \<open>A broker with only \<open>openai\<close> configured, and the same broker after a number of
  health-check rounds in which every probe throws.\<close>

definition onlyOpenAI :: broker where
  "onlyOpenAI = initializeProviders (\<lambda>p. p = ''openai'') newBroker"

definition probesDown :: "string \<Rightarrow> probe" where
  "probesDown p = Threw ''ECONNREFUSED''"

fun afterFailedChecks :: "nat \<Rightarrow> broker" where
  "afterFailedChecks 0 = onlyOpenAI"
| "afterFailedChecks (Suc n) = performHealthChecks probesDown 0 1 (afterFailedChecks n)"

text \<open>Environments: every request fails with the given message; every request is
  answered; the first \<open>n\<close> requests fail and the later ones are answered.\<close>

definition alwaysFails :: "string \<Rightarrow> env" where
  "alwaysFails msg = (\<lambda>n p operation. Inl msg)"

definition alwaysAnswers :: "string \<Rightarrow> env" where
  "alwaysAnswers body = (\<lambda>n p operation. Inr (Response body))"

definition failsFirst :: "nat \<Rightarrow> env" where
  "failsFirst k = (\<lambda>n p operation. if n < k then Inl ''timeout'' else Inr (Response ''ok''))"

text \<open>The tier rule as the specification words it: three tests in a fixed order, the
  first that holds decides.\<close>

datatype tierId = Realtime | Interactive | Batch

fun tierOf :: "tierId \<Rightarrow> qosTier" where
  "tierOf Realtime = realtime initQoSTiers"
| "tierOf Interactive = interactive initQoSTiers"
| "tierOf Batch = batch initQoSTiers"

fun tierRule :: "bool \<Rightarrow> bool \<Rightarrow> bool \<Rightarrow> tierId" where
  "tierRule True urgent research = Realtime"
| "tierRule False True research = Interactive"
| "tierRule False False True = Batch"
| "tierRule False False False = Interactive"

text \<open>Sample data for the router: an urgent, complex research intent, a chat context
  and a voice context, a message of 300000 characters (which the interactive tier prices
  at 3), and the router after a number of admitted or refused cost checks of it.\<close>

definition urgentResearch :: intent where
  "urgentResearch =
     \<lparr>category = ''research'', confidence = 9 / 10, complexity = ''complex'',
      urgency = ''high'', requiresTools = False, estimatedTokens = 100,
      hasContext = None, isFollowUp = None\<rparr>"



definition longMessage :: string where
  "longMessage = replicate 300000 CHR ''x''"

fun afterChecks :: "nat \<Rightarrow> router" where
  "afterChecks 0 = newRouter onlyOpenAI"
| "afterChecks (Suc n) =
     snd (checkCostSentinel None (interactive initQoSTiers) longMessage (afterChecks n))"



text \<open>The router after one short-term item was stored at time 0, and the same after
  a pin was added as well.\<close>

definition withOneItem :: router where
  "withOneItem = storeShortTermMemory 0 0 ''turn-1'' ''hello'' (newRouter onlyOpenAI)"

definition withItemAndPin :: router where
  "withItemAndPin = pinToMemory 0 ''remember this'' withOneItem"

section \<open>Properties\<close>

lemma request_frame:
  "request env p operation s = (res, s1) \<Longrightarrow> s1 = s\<lparr>netcalls := netcalls s @ [(p, operation)]\<rparr>"
  by (auto simp: request_def)

lemma dispatch_frame:
  "dispatch env p operation s = (res, s1) \<Longrightarrow>
     s1 = s \<or> s1 = s\<lparr>netcalls := netcalls s @ [(p, operation)]\<rparr>"
  by (auto simp: dispatch_def callOpenAI_def callElevenLabs_def callTwilio_def callPinecone_def
       callSupabase_def callTelegram_def callBrave_def request_def split: if_splits)

lemma dispatch_fields:
  assumes "dispatch env p operation s = (res, s1)"
  shows "providers s1 = providers s" and "healthStatus s1 = healthStatus s"
    and "retryAttempts s1 = retryAttempts s" and "fallbacks s1 = fallbacks s"
    and "length (netcalls s1) \<le> Suc (length (netcalls s))"
    and "length (netcalls s) \<le> length (netcalls s1)"
  using dispatch_frame [OF assms] by auto


lemma setAttempts_fields [simp]:
  "providers (setAttempts k n s) = providers s"
  "healthStatus (setAttempts k n s) = healthStatus s"
  "fallbacks (setAttempts k n s) = fallbacks s"
  "netcalls (setAttempts k n s) = netcalls s"
  "retryAttempts (setAttempts k n s) = (retryAttempts s)(k \<mapsto> n)"
  by (simp_all add: setAttempts_def)

lemma deleteAttempts_fields [simp]:
  "providers (deleteAttempts k s) = providers s"
  "healthStatus (deleteAttempts k s) = healthStatus s"
  "fallbacks (deleteAttempts k s) = fallbacks s"
  "netcalls (deleteAttempts k s) = netcalls s"
  "retryAttempts (deleteAttempts k s) = (retryAttempts s)(k := None)"
  by (simp_all add: deleteAttempts_def)

lemma unhealthy_setAttempts [simp]:
  "unhealthy (setAttempts k n s) p = unhealthy s p"
  by (simp add: unhealthy_def)

lemma dispatch_unhealthy:
  "dispatch env p operation s = (res, s1) \<Longrightarrow> unhealthy s1 q = unhealthy s q"
  by (simp add: unhealthy_def dispatch_fields(2))

lemma currentAttemptOf_set [simp]:
  "currentAttemptOf (setAttempts k n s) k = n"
  by (simp add: currentAttemptOf_def)

subsection \<open>Events\<close>

lemma checkProvider_fields [simp]:
  "providers (checkProvider probes started finished p s) = providers s"
  "fallbacks (checkProvider probes started finished p s) = fallbacks s"
  "netcalls (checkProvider probes started finished p s) = netcalls s"
  by (simp_all add: checkProvider_def setHealth_def deleteAttempts_def Let_def split: sum.splits)

lemma occur_fields [simp]:
  "providers (occur e s) = providers s"
  "fallbacks (occur e s) = fallbacks s"
  "netcalls (occur e s) = netcalls s"
  by (cases e; simp)+

lemma meanwhile_fields [simp]:
  "providers (meanwhile evs s) = providers s"
  "fallbacks (meanwhile evs s) = fallbacks s"
  "netcalls (meanwhile evs s) = netcalls s"
  by (induction evs arbitrary: s; simp add: meanwhile_def)+

lemma meanwhile_Nil [simp]: "meanwhile [] s = s"
  by (simp add: meanwhile_def)

lemma meanwhile_append: "meanwhile (evs @ evs') s = meanwhile evs' (meanwhile evs s)"
  by (simp add: meanwhile_def)

lemma nextOf_simps [simp]: "nextOf [] = []" "nextOf (x # xs) = x"
  by (simp_all add: nextOf_def)

subsection \<open>The passes of a call\<close>

lemma callProvider_not_available:
  "p \<notin> set (providers s) \<Longrightarrow>
     callProvider env p operation opt sched s = (Inl (ProviderNotAvailable p), s)"
  by (simp add: callProvider.simps)

lemma callProvider_unhealthy:
  "p \<in> set (providers s) \<Longrightarrow> unhealthy s p = Some n \<Longrightarrow>
     callProvider env p operation opt sched s = (Inl (ProviderUnhealthy p n), s)"
  by (simp add: callProvider.simps)

lemma callProvider_exhausted:
  "p \<in> set (providers s) \<Longrightarrow> unhealthy s p = None \<Longrightarrow>
   maxRetriesOf opt \<le> currentAttemptOf s (retryKey p operation) \<Longrightarrow>
     callProvider env p operation opt sched s = (Inl (MaxRetriesExceeded p operation), s)"
  by (simp add: callProvider.simps)

lemma callProvider_success:
  "p \<in> set (providers s) \<Longrightarrow> unhealthy s p = None \<Longrightarrow>
   currentAttemptOf s (retryKey p operation) < maxRetriesOf opt \<Longrightarrow>
   dispatch env p operation s = (Inr result, s1) \<Longrightarrow>
     callProvider env p operation opt sched s =
       (Inr result, deleteAttempts (retryKey p operation) (meanwhile (nextOf sched) s1))"
  by (simp add: callProvider.simps)

lemma callProvider_retry:
  "p \<in> set (providers s) \<Longrightarrow> unhealthy s p = None \<Longrightarrow>
   Suc (currentAttemptOf s (retryKey p operation)) < maxRetriesOf opt \<Longrightarrow>
   dispatch env p operation s = (Inl err, s1) \<Longrightarrow>
     callProvider env p operation opt sched s =
       callProvider env p operation opt (drop 2 sched)
         (meanwhile (nextOf (drop 1 sched))
            (setAttempts (retryKey p operation) (Suc (currentAttemptOf s (retryKey p operation)))
               (meanwhile (nextOf sched) s1)))"
  by (subst callProvider.simps) (simp add: Let_def)

lemma callProvider_give_up:
  "p \<in> set (providers s) \<Longrightarrow> unhealthy s p = None \<Longrightarrow>
   Suc (currentAttemptOf s (retryKey p operation)) = maxRetriesOf opt \<Longrightarrow>
   dispatch env p operation s = (Inl err, s1) \<Longrightarrow>
     callProvider env p operation opt sched s =
       (Inl err, setAttempts (retryKey p operation) (maxRetriesOf opt) (meanwhile (nextOf sched) s1))"
  by (subst callProvider.simps) (auto simp add: Let_def)

text \<open>One rule for everything proved about \<open>callProvider\<close>: a property of a schedule, a
  state and an outcome holds of every call when it holds at each exit and is passed back
  through a retry.\<close>

lemma callProvider_rule [case_names not_available unhealthy exhausted success give_up retry]:
  assumes "\<And>sched s. p \<notin> set (providers s) \<Longrightarrow> Q sched s (Inl (ProviderNotAvailable p), s)"
    and "\<And>sched s n. p \<in> set (providers s) \<Longrightarrow> unhealthy s p = Some n \<Longrightarrow>
           Q sched s (Inl (ProviderUnhealthy p n), s)"
    and "\<And>sched s. p \<in> set (providers s) \<Longrightarrow> unhealthy s p = None \<Longrightarrow>
           maxRetriesOf opt \<le> currentAttemptOf s (retryKey p operation) \<Longrightarrow>
           Q sched s (Inl (MaxRetriesExceeded p operation), s)"
    and "\<And>sched s r s1. p \<in> set (providers s) \<Longrightarrow> unhealthy s p = None \<Longrightarrow>
           currentAttemptOf s (retryKey p operation) < maxRetriesOf opt \<Longrightarrow>
           dispatch env p operation s = (Inr r, s1) \<Longrightarrow>
           Q sched s (Inr r, deleteAttempts (retryKey p operation) (meanwhile (nextOf sched) s1))"
    and "\<And>sched s e s1. p \<in> set (providers s) \<Longrightarrow> unhealthy s p = None \<Longrightarrow>
           Suc (currentAttemptOf s (retryKey p operation)) = maxRetriesOf opt \<Longrightarrow>
           dispatch env p operation s = (Inl e, s1) \<Longrightarrow>
           Q sched s (Inl e, setAttempts (retryKey p operation) (maxRetriesOf opt)
                               (meanwhile (nextOf sched) s1))"
    and "\<And>sched s e s1 out. p \<in> set (providers s) \<Longrightarrow> unhealthy s p = None \<Longrightarrow>
           Suc (currentAttemptOf s (retryKey p operation)) < maxRetriesOf opt \<Longrightarrow>
           dispatch env p operation s = (Inl e, s1) \<Longrightarrow>
           Q (drop 2 sched)
             (meanwhile (nextOf (drop 1 sched))
                (setAttempts (retryKey p operation) (Suc (currentAttemptOf s (retryKey p operation)))
                   (meanwhile (nextOf sched) s1))) out \<Longrightarrow>
           Q sched s out"
  shows "Q sched s (callProvider env p operation opt sched s)"
proof (induction "length sched" arbitrary: sched s rule: less_induct)
  case less
  note outer = less
  let ?k = "retryKey p operation"
  show ?case
  proof (induction "maxRetriesOf opt - currentAttemptOf s ?k" arbitrary: s rule: less_induct)
    case less
    consider (a) "p \<notin> set (providers s)"
      | (b) n where "p \<in> set (providers s)" "unhealthy s p = Some n"
      | (c) "p \<in> set (providers s)" "unhealthy s p = None" "maxRetriesOf opt \<le> currentAttemptOf s ?k"
      | (d) "p \<in> set (providers s)" "unhealthy s p = None" "currentAttemptOf s ?k < maxRetriesOf opt"
    proof (cases "unhealthy s p")
      case None
      then show ?thesis
        using a c d
        by (cases "p \<in> set (providers s)"; cases "maxRetriesOf opt \<le> currentAttemptOf s ?k") auto
    next
      case (Some n)
      then show ?thesis using a b by (cases "p \<in> set (providers s)") auto
    qed
    then show ?case
    proof cases
      case a
      then show ?thesis by (simp add: callProvider_not_available assms(1))
    next
      case b
      then show ?thesis by (simp add: callProvider_unhealthy assms(2))
    next
      case c
      then show ?thesis by (simp add: callProvider_exhausted assms(3))
    next
      case d
      obtain res s1 where disp: "dispatch env p operation s = (res, s1)"
        by (cases "dispatch env p operation s")
      show ?thesis
      proof (cases res)
        case (Inr r)
        with disp have disp': "dispatch env p operation s = (Inr r, s1)" by simp
        show ?thesis
          unfolding callProvider_success [OF d disp'] by (rule assms(4) [OF d disp'])
      next
        case (Inl e)
        with disp have disp': "dispatch env p operation s = (Inl e, s1)" by simp
        let ?s3 = "meanwhile (nextOf (drop 1 sched))
                     (setAttempts ?k (Suc (currentAttemptOf s ?k)) (meanwhile (nextOf sched) s1))"
        show ?thesis
        proof (cases "Suc (currentAttemptOf s ?k) < maxRetriesOf opt")
          case True
          have "Q (drop 2 sched) ?s3 (callProvider env p operation opt (drop 2 sched) ?s3)"
          proof (cases sched)
            case Nil
            from True have "maxRetriesOf opt - currentAttemptOf ?s3 ?k
                         < maxRetriesOf opt - currentAttemptOf s ?k"
              by (simp add: Nil)
            from less [OF this] show ?thesis by (simp add: Nil)
          next
            case (Cons evs rest)
            then have "length (drop 2 sched) < length sched" by simp
            then show ?thesis by (rule outer)
          qed
          then have "Q sched s (callProvider env p operation opt (drop 2 sched) ?s3)"
            by (rule assms(6) [OF d(1,2) True disp'])
          then show ?thesis
            unfolding callProvider_retry [OF d(1,2) True disp'] .
        next
          case False
          with d have last: "Suc (currentAttemptOf s ?k) = maxRetriesOf opt" by simp
          show ?thesis
            unfolding callProvider_give_up [OF d(1,2) last disp']
            by (rule assms(5) [OF d(1,2) last disp'])
        qed
      qed
    qed
  qed
qed

lemma callProvider_keeps:
  "providers (snd (callProvider env p operation opt sched s)) = providers s \<and>
   fallbacks (snd (callProvider env p operation opt sched s)) = fallbacks s"
proof (rule callProvider_rule [where Q = "\<lambda>sched s out.
         providers (snd out) = providers s \<and> fallbacks (snd out) = fallbacks s"],
       goal_cases)
  case (4 sched s r s1)
  then show ?case using dispatch_fields [OF 4(4)] by simp
next
  case (5 sched s e s1)
  then show ?case using dispatch_fields [OF 5(4)] by simp
next
  case (6 sched s e s1 out)
  then show ?case using dispatch_fields [OF 6(4)] by simp
qed simp_all


subsection \<open>Health checks\<close>

lemma health_ok_cong:
  "healthStatus s1 = healthStatus s \<Longrightarrow> providers s1 = providers s \<Longrightarrow>
     health_ok s \<Longrightarrow> health_ok s1"
  by (simp add: health_ok_def)

lemma checkProvider_health_ok:
  assumes "health_ok s" and "p \<in> set (providers s)"
  shows "health_ok (checkProvider probes started finished p s)"
proof (cases "probeHealthy p (probes p)")
  case (Inl msg)
  with assms show ?thesis
    by (simp add: health_ok_def checkProvider_def setHealth_def)
next
  case (Inr ok)
  with assms show ?thesis
    by (simp add: health_ok_def checkProvider_def setHealth_def deleteAttempts_def Let_def)
qed

lemma fold_checkProvider_health_ok:
  "health_ok s \<Longrightarrow> set ps \<subseteq> set (providers s) \<Longrightarrow>
     health_ok (fold (checkProvider probes started finished) ps s) \<and>
     providers (fold (checkProvider probes started finished) ps s) = providers s"
proof (induction ps arbitrary: s)
  case Nil
  then show ?case by simp
next
  case (Cons p ps)
  then have "health_ok (checkProvider probes started finished p s)"
    by (simp add: checkProvider_health_ok)
  moreover have "set ps \<subseteq> set (providers (checkProvider probes started finished p s))"
    using Cons.prems by simp
  ultimately show ?case using Cons.IH by simp
qed

lemma performHealthChecks_health_ok:
  "health_ok s \<Longrightarrow> health_ok (performHealthChecks probes started finished s)"
  by (simp add: performHealthChecks_def fold_checkProvider_health_ok)

lemma occur_health_ok: "health_ok s \<Longrightarrow> health_ok (occur e s)"
proof (cases e)
  case (Checked probes started finished q)
  assume "health_ok s"
  with Checked show ?thesis by (simp add: checkProvider_health_ok)
next
  case (Succeeded q operation)
  assume "health_ok s"
  with Succeeded show ?thesis by (simp add: health_ok_def)
next
  case (Failed q operation n)
  assume "health_ok s"
  with Failed show ?thesis by (simp add: health_ok_def)
qed

lemma meanwhile_health_ok: "health_ok s \<Longrightarrow> health_ok (meanwhile evs s)"
  by (induction evs arbitrary: s) (simp_all add: meanwhile_def occur_health_ok)

lemma setAttempts_health_ok [simp]: "health_ok (setAttempts k n s) = health_ok s"
  by (simp add: health_ok_def)

lemma deleteAttempts_health_ok [simp]: "health_ok (deleteAttempts k s) = health_ok s"
  by (simp add: health_ok_def)

lemma dispatch_health_ok:
  "dispatch env p operation s = (res, s1) \<Longrightarrow> health_ok s1 = health_ok s"
  using dispatch_fields(1,2) [of env p operation s res s1] by (simp add: health_ok_def)

lemma callProvider_health_ok:
  "health_ok s \<longrightarrow> health_ok (snd (callProvider env p operation opt sched s))"
proof (rule callProvider_rule [where Q = "\<lambda>sched s out. health_ok s \<longrightarrow> health_ok (snd out)"],
       goal_cases)
  case (4 sched s r s1)
  then show ?case by (simp add: meanwhile_health_ok dispatch_health_ok)
next
  case (5 sched s e s1)
  then show ?case by (simp add: meanwhile_health_ok dispatch_health_ok)
next
  case (6 sched s e s1 out)
  then show ?case by (simp add: meanwhile_health_ok dispatch_health_ok)
qed simp_all

lemma tryChain_health_ok:
  "health_ok s \<Longrightarrow> health_ok (snd (tryChain env chain operation opt scheds s))"
proof (induction chain arbitrary: s scheds)
  case Nil
  then show ?case by simp
next
  case (Cons p rest)
  obtain res s1 where c: "callProvider env p operation opt (nextOf scheds) s = (res, s1)"
    by (cases "callProvider env p operation opt (nextOf scheds) s")
  from callProvider_health_ok [of s env p operation opt "nextOf scheds"] c Cons.prems
  have ok: "health_ok s1" by simp
  show ?case
  proof (cases res)
    case (Inl e)
    with c Cons.IH [OF ok] show ?thesis by simp
  next
    case (Inr r)
    with c ok show ?thesis by simp
  qed
qed

lemma callWithFallback_health_ok:
  "health_ok s \<Longrightarrow> health_ok (snd (callWithFallback env service operation opt scheds s))"
proof -
  assume ok: "health_ok s"
  obtain res s1 where t: "tryChain env (fallbackChain s service) operation opt scheds s = (res, s1)"
    by (cases "tryChain env (fallbackChain s service) operation opt scheds s")
  with tryChain_health_ok [OF ok, of env "fallbackChain s service" operation opt scheds]
  show ?thesis by (cases res) (simp_all add: callWithFallback_def)
qed

lemma registerProvider_health_ok: "health_ok s \<Longrightarrow> health_ok (registerProvider p s)"
  by (simp add: health_ok_def registerProvider_def)

lemma fold_registerProvider_health_ok:
  "health_ok s \<Longrightarrow> health_ok (fold registerProvider ps s)"
  by (induction ps arbitrary: s) (simp_all add: registerProvider_health_ok)

lemma setupFallbacks_health_ok: "health_ok s \<Longrightarrow> health_ok (setupFallbacks s)"
  by (simp add: health_ok_def setupFallbacks_def setFallback_def)

lemma reachable_health_ok: "reachable s \<Longrightarrow> health_ok s"
proof (induction rule: reachable.induct)
  case constructed
  show ?case by (simp add: health_ok_def newBroker_def)
next
  case (registered s p)
  then show ?case by (simp add: registerProvider_health_ok)
next
  case (initialized s configured)
  then show ?case
    by (simp add: initializeProviders_def setupFallbacks_health_ok fold_registerProvider_health_ok)
next
  case (probed s p probes started finished)
  then show ?case by (simp add: checkProvider_health_ok)
next
  case (health s probes started finished)
  then show ?case by (simp add: performHealthChecks_health_ok)
next
  case (occurred s e)
  then show ?case by (simp add: occur_health_ok)
next
  case (call s env providerName operation maxRetriesOpt sched)
  then show ?case
    using callProvider_health_ok [of s env providerName operation maxRetriesOpt sched] by simp
next
  case (fallback s env service operation maxRetriesOpt scheds)
  then show ?case by (simp add: callWithFallback_health_ok)
qed

subsection \<open>The circuit breaker\<close>

text \<open>
  Claim C1. In every state the broker can reach, a provider whose health entry counts
  more than three consecutive failures is refused by \<open>callProvider\<close> with
  \<open>ProviderUnhealthy\<close>, and the broker is left exactly as it was: no request is added to
  the trace and no retry counter moves. The refusal comes from the entry checks, before
  the first wait, so nothing that other tasks do enters into it. The guard in the source
  also asks for \<open>!health.healthy\<close>; in a reachable state that follows from the failure
  count, since a health check that finds the provider healthy writes the count 0.
\<close>

theorem unhealthy_provider_is_rejected:
  assumes "reachable s"
    and "healthStatus s p = Some h"
    and "consecutiveFailures h > 3"
  shows "callProvider env p operation opt sched s =
           (Inl (ProviderUnhealthy p (consecutiveFailures h)), s)"
proof -
  from assms(1) have "health_ok s" by (rule reachable_health_ok)
  with assms(2,3) have reg: "p \<in> set (providers s)" and "\<not> healthy h"
    by (auto simp: health_ok_def)
  with assms(2,3) have "unhealthy s p = Some (consecutiveFailures h)"
    by (simp add: unhealthy_def)
  with reg show ?thesis by (rule callProvider_unhealthy)
qed

lemma onlyOpenAI_eq:
  "onlyOpenAI =
     \<lparr>providers = [''openai''], healthStatus = Map.empty, retryAttempts = Map.empty,
      fallbacks = [''llm'' \<mapsto> [''openai'', ''local''], ''tts'' \<mapsto> [''elevenlabs'', ''browser''],
                   ''search'' \<mapsto> [''brave'', ''duckduckgo''],
                   ''vector'' \<mapsto> [''pinecone'', ''sqlite'']],
      netcalls = []\<rparr>"
  by (simp add: onlyOpenAI_def initializeProviders_def providerNames_def registerProvider_def
        newBroker_def setupFallbacks_def setFallback_def)

lemma onlyOpenAI_fields [simp]:
  "providers onlyOpenAI = [''openai'']"
  "healthStatus onlyOpenAI = Map.empty"
  "retryAttempts onlyOpenAI = Map.empty"
  "netcalls onlyOpenAI = []"
  by (simp_all add: onlyOpenAI_eq)

lemma afterFailedChecks_reachable: "reachable (afterFailedChecks n)"
  by (induction n)
     (simp_all add: onlyOpenAI_def reachable.constructed reachable.initialized reachable.health)

lemma afterFailedChecks_providers [simp]: "providers (afterFailedChecks n) = [''openai'']"
  by (induction n)
     (simp_all add: performHealthChecks_def)

lemma failed_check_openai:
  "providers s = [''openai''] \<Longrightarrow>
     healthStatus (performHealthChecks probesDown 0 1 s) ''openai'' =
       Some \<lparr>healthy = False, latency = None, lastCheck = 1,
             consecutiveFailures = Suc (failuresOf s ''openai''), error = Some ''ECONNREFUSED''\<rparr>"
  by (simp add: performHealthChecks_def checkProvider_def probeHealthy_def probesDown_def
        setHealth_def)

lemma afterFailedChecks_health:
  "healthStatus (afterFailedChecks (Suc n)) ''openai'' =
     Some \<lparr>healthy = False, latency = None, lastCheck = 1,
           consecutiveFailures = Suc n, error = Some ''ECONNREFUSED''\<rparr>"
proof (induction n)
  case 0
  have "failuresOf onlyOpenAI ''openai'' = 0"
    by (simp add: failuresOf_def)
  with failed_check_openai [OF afterFailedChecks_providers, of 0] show ?case by simp
next
  case (Suc n)
  then have "failuresOf (afterFailedChecks (Suc n)) ''openai'' = Suc n"
    by (simp add: failuresOf_def)
  with failed_check_openai [OF afterFailedChecks_providers, of "Suc n"] show ?case by simp
qed

theorem unhealthy_provider_is_rejected_witness:
  "reachable (afterFailedChecks 4) \<and>
   healthStatus (afterFailedChecks 4) ''openai'' =
     Some \<lparr>healthy = False, latency = None, lastCheck = 1,
           consecutiveFailures = 4, error = Some ''ECONNREFUSED''\<rparr> \<and>
   callProvider (alwaysAnswers ''{}'') ''openai'' ''chat'' None [] (afterFailedChecks 4) =
     (Inl (ProviderUnhealthy ''openai'' 4), afterFailedChecks 4)"
proof -
  have r: "reachable (afterFailedChecks 4)" by (rule afterFailedChecks_reachable)
  have h: "healthStatus (afterFailedChecks 4) ''openai'' =
     Some \<lparr>healthy = False, latency = None, lastCheck = 1,
           consecutiveFailures = 4, error = Some ''ECONNREFUSED''\<rparr>"
    using afterFailedChecks_health [of 3] by (simp add: numeral_eq_Suc)
  from unhealthy_provider_is_rejected [OF r h, of "alwaysAnswers ''{}''" "''chat''" None "[]"] r h
  show ?thesis by simp
qed

subsection \<open>Runs on the sample states\<close>

lemma openai_three_failures:
  "callProvider (alwaysFails msg) ''openai'' ''chat'' None [] onlyOpenAI =
     (Inl (CallFailed msg),
      onlyOpenAI\<lparr>retryAttempts := [''openai-chat'' \<mapsto> 3],
                 netcalls := [(''openai'', ''chat''), (''openai'', ''chat''), (''openai'', ''chat'')]\<rparr>)"
  by (simp add: callProvider.simps unhealthy_def currentAttemptOf_def maxRetriesOf_def
        retryKey_def dispatch_def callOpenAI_def request_def alwaysFails_def
        setAttempts_def Let_def numeral_3_eq_3)




lemma local_not_available:
  "providers s = [''openai''] \<Longrightarrow>
     callProvider env ''local'' operation opt sched s = (Inl (ProviderNotAvailable ''local''), s)"
  by (simp add: callProvider_not_available)

lemma openai_third_time_lucky:
  "callProvider (failsFirst 2) ''openai'' ''chat'' None [] onlyOpenAI =
     (Inr (Response ''ok''),
      onlyOpenAI\<lparr>retryAttempts := Map.empty,
                 netcalls := [(''openai'', ''chat''), (''openai'', ''chat''), (''openai'', ''chat'')]\<rparr>)"
  by (simp add: callProvider.simps unhealthy_def currentAttemptOf_def maxRetriesOf_def
        retryKey_def dispatch_def callOpenAI_def request_def failsFirst_def
        setAttempts_def deleteAttempts_def Let_def numeral_3_eq_3 numeral_2_eq_2)

lemma afterFailedChecks_retryAttempts [simp]:
  "retryAttempts (afterFailedChecks n) = Map.empty"
proof (induction n)
  case 0
  show ?case by simp
next
  case (Suc n)
  have "retryAttempts (performHealthChecks probesDown 0 1 s) = retryAttempts s"
    if "providers s = [''openai'']" for s
    using that
    by (simp add: performHealthChecks_def checkProvider_def probeHealthy_def probesDown_def
          setHealth_def)
  from this [OF afterFailedChecks_providers, of n] Suc show ?case by simp
qed

lemma afterFailedChecks_netcalls [simp]:
  "netcalls (afterFailedChecks n) = []"
  by (induction n) (simp_all add: performHealthChecks_def)

lemma call_after_two_failed_checks:
  "fst (callProvider (alwaysAnswers body) ''openai'' ''chat'' None [] (afterFailedChecks 2)) =
     Inr (Response body)"
proof -
  have h: "healthStatus (afterFailedChecks 2) ''openai'' =
     Some \<lparr>healthy = False, latency = None, lastCheck = 1,
           consecutiveFailures = 2, error = Some ''ECONNREFUSED''\<rparr>"
    using afterFailedChecks_health [of 1] by (simp add: numeral_2_eq_2)
  have "dispatch (alwaysAnswers body) ''openai'' ''chat'' (afterFailedChecks 2) =
          (Inr (Response body), afterFailedChecks 2\<lparr>netcalls := [(''openai'', ''chat'')]\<rparr>)"
    by (simp add: dispatch_def callOpenAI_def request_def alwaysAnswers_def)
  moreover have "unhealthy (afterFailedChecks 2) ''openai'' = None"
    using h by (simp add: unhealthy_def)
  ultimately show ?thesis
    by (subst callProvider_success)
       (simp_all add: currentAttemptOf_def maxRetriesOf_def)
qed

subsection \<open>Fallback chains\<close>

text \<open>
  Claim C2, as amended. When the chain of a service is \<open>[A, B]\<close> and the call to \<open>A\<close> and
  then the call to \<open>B\<close> both fail, \<open>callWithFallback\<close> fails with \<open>AllProvidersFailed\<close>,
  which names the service and nothing else: the two errors were written to the console
  inside the loop and are not part of the error thrown.
\<close>

theorem fallback_exhausted_names_service:
  assumes "fallbackChain s service = [A, B]"
    and "callProvider env A operation opt (nextOf scheds) s = (Inl errA, s1)"
    and "callProvider env B operation opt (nextOf (drop 1 scheds)) s1 = (Inl errB, s2)"
  shows "callWithFallback env service operation opt scheds s =
           (Inl (AllProvidersFailed service), s2)"
  using assms by (simp add: callWithFallback_def)

lemma llm_chain: "fallbackChain onlyOpenAI ''llm'' = [''openai'', ''local'']"
  by (simp add: fallbackChain_def onlyOpenAI_eq)

theorem fallback_exhausted_names_service_witness:
  "fallbackChain onlyOpenAI ''llm'' = [''openai'', ''local''] \<and>
   callWithFallback (alwaysFails ''timeout'') ''llm'' ''chat'' None [] onlyOpenAI =
     (Inl (AllProvidersFailed ''llm''),
      onlyOpenAI\<lparr>retryAttempts := [''openai-chat'' \<mapsto> 3],
                 netcalls := [(''openai'', ''chat''), (''openai'', ''chat''), (''openai'', ''chat'')]\<rparr>)"
proof -
  have a: "callProvider (alwaysFails ''timeout'') ''openai'' ''chat'' None (nextOf []) onlyOpenAI =
     (Inl (CallFailed ''timeout''),
      onlyOpenAI\<lparr>retryAttempts := [''openai-chat'' \<mapsto> 3],
                 netcalls := [(''openai'', ''chat''), (''openai'', ''chat''), (''openai'', ''chat'')]\<rparr>)"
    by (simp add: openai_three_failures)
  from fallback_exhausted_names_service [OF llm_chain a local_not_available]
  show ?thesis by (simp add: llm_chain)
qed

text \<open>
  Claim C2 as the specification words it does not hold: two runs in which the first
  provider fails with different errors end in the very same error value, so that value
  cannot carry the errors of the providers.
\<close>

theorem fallback_error_forgets_causes:
  "fst (callProvider (alwaysFails ''timeout'') ''openai'' ''chat'' None [] onlyOpenAI) =
     Inl (CallFailed ''timeout'') \<and>
   fst (callProvider (alwaysFails ''quota'') ''openai'' ''chat'' None [] onlyOpenAI) =
     Inl (CallFailed ''quota'') \<and>
   fst (callWithFallback (alwaysFails ''timeout'') ''llm'' ''chat'' None [] onlyOpenAI) =
     Inl (AllProvidersFailed ''llm'') \<and>
   fst (callWithFallback (alwaysFails ''quota'') ''llm'' ''chat'' None [] onlyOpenAI) =
     Inl (AllProvidersFailed ''llm'')"
  by (simp add: openai_three_failures callWithFallback_def llm_chain local_not_available)

subsection \<open>Schedules that leave a counter or a health entry alone\<close>












subsection \<open>Retries\<close>






subsection \<open>Health is written by the health checks only\<close>

lemma occur_health_cong:
  "healthStatus a = healthStatus b \<Longrightarrow> providers a = providers b \<Longrightarrow>
     healthStatus (occur e a) = healthStatus (occur e b)"
  by (cases e)
     (auto simp: checkProvider_def setHealth_def deleteAttempts_def setAttempts_def failuresOf_def
        Let_def split: sum.splits)

lemma meanwhile_health_cong:
  "healthStatus a = healthStatus b \<Longrightarrow> providers a = providers b \<Longrightarrow>
     healthStatus (meanwhile evs a) = healthStatus (meanwhile evs b)"
proof (induction evs arbitrary: a b)
  case Nil
  then show ?case by simp
next
  case (Cons e evs)
  have "healthStatus (occur e a) = healthStatus (occur e b)"
    using Cons.prems by (rule occur_health_cong)
  moreover have "providers (occur e a) = providers (occur e b)"
    using Cons.prems by simp
  ultimately have "healthStatus (meanwhile evs (occur e a)) = healthStatus (meanwhile evs (occur e b))"
    by (rule Cons.IH)
  then show ?case by (simp add: meanwhile_def)
qed

lemma next_two: "nextOf sched @ nextOf (drop 1 sched) = concat (take 2 sched)"
proof (cases sched)
  case Nil
  then show ?thesis by simp
next
  case (Cons x rest)
  then show ?thesis by (cases rest) (simp_all add: numeral_2_eq_2)
qed

lemma next_one: "nextOf sched = concat (take 1 sched)"
  by (cases sched) simp_all

lemma take_capped: "take (min n (length xs)) xs = take n xs"
  by (simp add: min_def)

lemma callProvider_health:
  "\<exists>k\<le>length sched.
     healthStatus (snd (callProvider env p operation opt sched s)) =
       healthStatus (meanwhile (concat (take k sched)) s)"
proof (rule callProvider_rule [where Q = "\<lambda>sched s out. \<exists>k\<le>length sched.
     healthStatus (snd out) = healthStatus (meanwhile (concat (take k sched)) s)"],
       goal_cases)
  case (1 sched s)
  show ?case by (intro exI [of _ 0]) simp
next
  case (2 sched s n)
  show ?case by (intro exI [of _ 0]) simp
next
  case (3 sched s)
  show ?case by (intro exI [of _ 0]) simp
next
  case (4 sched s r s1)
  have "healthStatus (meanwhile (nextOf sched) s1) = healthStatus (meanwhile (nextOf sched) s)"
    using dispatch_fields(2,1) [OF 4(4)] by (rule meanwhile_health_cong)
  then have "healthStatus (meanwhile (nextOf sched) s1) =
               healthStatus (meanwhile (concat (take (min 1 (length sched)) sched)) s)"
    by (simp only: take_capped next_one [symmetric])
  then show ?case by (intro exI [of _ "min 1 (length sched)"]) simp
next
  case (5 sched s e s1)
  have "healthStatus (meanwhile (nextOf sched) s1) = healthStatus (meanwhile (nextOf sched) s)"
    using dispatch_fields(2,1) [OF 5(4)] by (rule meanwhile_health_cong)
  then have "healthStatus (meanwhile (nextOf sched) s1) =
               healthStatus (meanwhile (concat (take (min 1 (length sched)) sched)) s)"
    by (simp only: take_capped next_one [symmetric])
  then show ?case by (intro exI [of _ "min 1 (length sched)"]) simp
next
  case (6 sched s e s1 out)
  let ?k = "retryKey p operation"
  let ?s2 = "setAttempts ?k (Suc (currentAttemptOf s ?k)) (meanwhile (nextOf sched) s1)"
  let ?s3 = "meanwhile (nextOf (drop 1 sched)) ?s2"
  from 6(5) obtain k where k: "k \<le> length (drop 2 sched)"
    and out: "healthStatus (snd out) = healthStatus (meanwhile (concat (take k (drop 2 sched))) ?s3)"
    by blast
  have "healthStatus (meanwhile (nextOf sched) s1) = healthStatus (meanwhile (nextOf sched) s)"
    using dispatch_fields(2,1) [OF 6(4)] by (rule meanwhile_health_cong)
  then have "healthStatus ?s2 = healthStatus (meanwhile (nextOf sched) s)" by simp
  moreover have "providers ?s2 = providers (meanwhile (nextOf sched) s)"
    using dispatch_fields(1) [OF 6(4)] by simp
  ultimately have "healthStatus ?s3 =
      healthStatus (meanwhile (nextOf (drop 1 sched)) (meanwhile (nextOf sched) s))"
    by (rule meanwhile_health_cong)
  then have s3: "healthStatus ?s3 = healthStatus (meanwhile (concat (take 2 sched)) s)"
    by (simp only: meanwhile_append [symmetric] next_two)
  have "providers ?s3 = providers (meanwhile (concat (take 2 sched)) s)"
    using dispatch_fields(1) [OF 6(4)] by simp
  with s3 have "healthStatus (meanwhile (concat (take k (drop 2 sched))) ?s3) =
      healthStatus (meanwhile (concat (take k (drop 2 sched))) (meanwhile (concat (take 2 sched)) s))"
    by (rule meanwhile_health_cong)
  also have "\<dots> = healthStatus (meanwhile (concat (take 2 sched) @ concat (take k (drop 2 sched))) s)"
    by (simp only: meanwhile_append)
  also have "concat (take 2 sched) @ concat (take k (drop 2 sched)) = concat (take (2 + k) sched)"
    by (simp only: take_add concat_append)
  also have "take (2 + k) sched = take (min (2 + k) (length sched)) sched"
    by (simp only: take_capped)
  finally have "healthStatus (snd out) =
      healthStatus (meanwhile (concat (take (min (2 + k) (length sched)) sched)) s)"
    using out by simp
  then show ?case by (intro exI [of _ "min (2 + k) (length sched)"]) simp
qed

text \<open>
  Claim C4, as amended. \<open>callProvider\<close> never writes the health map: whatever the outcome
  of its attempts, the health entries after a call are those that the health checks
  which ran during its waits have made of the entries before; when none ran, they are the
  entries before. Latency is computed for the console only, and a success resets the
  retry counter of the pair, not the failure count of the provider. Health entries change
  in \<open>performHealthChecks\<close> alone.
\<close>

theorem callProvider_leaves_health:
  "(\<exists>k\<le>length sched.
      healthStatus (snd (callProvider env p operation opt sched s)) =
        healthStatus (meanwhile (concat (take k sched)) s)) \<and>
   healthStatus (snd (callProvider env p operation opt [] s)) = healthStatus s"
proof -
  from callProvider_health [of "[]" env p operation opt s]
  have "healthStatus (snd (callProvider env p operation opt [] s)) = healthStatus s" by simp
  with callProvider_health [of sched env p operation opt s] show ?thesis by blast
qed

text \<open>
  Claim C4 as the specification words it does not hold: after two failed health checks a
  call to the provider succeeds, and the provider's entry still shows two consecutive
  failures and no latency.
\<close>

theorem successful_call_keeps_failure_count:
  "fst (callProvider (alwaysAnswers ''ok'') ''openai'' ''chat'' None [] (afterFailedChecks 2)) =
     Inr (Response ''ok'') \<and>
   healthStatus (snd (callProvider (alwaysAnswers ''ok'') ''openai'' ''chat'' None []
                        (afterFailedChecks 2))) ''openai'' =
     Some \<lparr>healthy = False, latency = None, lastCheck = 1,
           consecutiveFailures = 2, error = Some ''ECONNREFUSED''\<rparr>"
proof -
  have "healthStatus (afterFailedChecks 2) ''openai'' =
     Some \<lparr>healthy = False, latency = None, lastCheck = 1,
           consecutiveFailures = 2, error = Some ''ECONNREFUSED''\<rparr>"
    using afterFailedChecks_health [of 1] by (simp add: numeral_2_eq_2)
  moreover from callProvider_health [of "[]" "alwaysAnswers ''ok''" "''openai''" "''chat''" None
                  "afterFailedChecks 2"]
  have "healthStatus (snd (callProvider (alwaysAnswers ''ok'') ''openai'' ''chat'' None []
                        (afterFailedChecks 2))) = healthStatus (afterFailedChecks 2)"
    by simp
  ultimately show ?thesis by (simp add: call_after_two_failed_checks)
qed

subsection \<open>The retry budget\<close>






text \<open>
  The fourth request is not the end of it. Each success of another invocation that falls
  into a backoff wait of the failing call costs one more request: with \<open>n\<close> such
  successes the call makes \<open>n + 3\<close> requests before it gives up.
\<close>

lemma dispatch_openai_fails:
  "dispatch (alwaysFails msg) ''openai'' ''chat'' s =
     (Inl (CallFailed msg), s\<lparr>netcalls := netcalls s @ [(''openai'', ''chat'')]\<rparr>)"
  by (simp add: dispatch_def callOpenAI_def request_def alwaysFails_def)

lemma requests_grow_with_resets:
  assumes "''openai'' \<in> set (providers s)"
    and "healthStatus s ''openai'' = None"
    and "retryAttempts s ''openai-chat'' = None"
  shows "length (netcalls (snd (callProvider (alwaysFails msg) ''openai'' ''chat'' None
            (concat (replicate n [[], [Succeeded ''openai'' ''chat'']])) s))) =
         length (netcalls s) + n + 3"
  using assms
proof (induction n arbitrary: s)
  case 0
  then show ?case
    by (simp add: callProvider.simps unhealthy_def currentAttemptOf_def maxRetriesOf_def
          retryKey_def dispatch_openai_fails setAttempts_def Let_def)
next
  case (Suc n)
  let ?rest = "concat (replicate n [[], [Succeeded ''openai'' ''chat'']])"
  let ?s1 = "s\<lparr>netcalls := netcalls s @ [(''openai'', ''chat'')]\<rparr>"
  let ?s3 = "deleteAttempts ''openai-chat'' (setAttempts ''openai-chat'' 1 ?s1)"
  have step: "callProvider (alwaysFails msg) ''openai'' ''chat'' None
                ([] # [Succeeded ''openai'' ''chat''] # ?rest) s =
              callProvider (alwaysFails msg) ''openai'' ''chat'' None ?rest ?s3"
    using Suc.prems
    by (subst callProvider.simps)
       (simp add: unhealthy_def currentAttemptOf_def maxRetriesOf_def retryKey_def
          dispatch_openai_fails meanwhile_def Let_def)
  have "length (netcalls (snd (callProvider (alwaysFails msg) ''openai'' ''chat'' None ?rest ?s3))) =
          length (netcalls ?s3) + n + 3"
    using Suc.prems by (intro Suc.IH) simp_all
  with step show ?case by simp
qed

section \<open>Properties of the router\<close>

subsection \<open>Tier selection\<close>

text \<open>
  Claim C7. \<open>selectQoSTier\<close> is a function of the intent and the context alone, and it
  is the rule of the specification: voice or call first, then high urgency, then complex
  research, then the default. In particular a voice turn with high urgency and complex
  research gets the realtime tier, which is not the tier either later rule would give.
\<close>

theorem selectQoSTier_precedence:
  "selectQoSTier i ctx =
     tierOf (tierRule (isVoice ctx \<or> isCall ctx) (urgency i = ''high'')
               (complexity i = ''complex'' \<and> category i = ''research'')) \<and>
   selectQoSTier (i\<lparr>urgency := ''high'', complexity := ''complex'', category := ''research''\<rparr>)
     (ctx\<lparr>isVoice := True\<rparr>) = realtime initQoSTiers \<and>
   name (realtime initQoSTiers) = ''realtime'' \<and>
   name (interactive initQoSTiers) = ''interactive'' \<and>
   name (batch initQoSTiers) = ''batch''"
proof -
  have "selectQoSTier i ctx =
     tierOf (tierRule (isVoice ctx \<or> isCall ctx) (urgency i = ''high'')
               (complexity i = ''complex'' \<and> category i = ''research''))"
    by (auto simp: selectQoSTier_def)
  then show ?thesis by (simp add: selectQoSTier_def initQoSTiers_def)
qed

subsection \<open>Cost sentinel\<close>

lemma checkCostSentinel_refuses:
  "daily (costs r) + estimateRequestCost tier message > dailyBudgetOf budgetVar \<Longrightarrow>
     checkCostSentinel budgetVar tier message r =
       (Refused (daily (costs r)) (estimateRequestCost tier message) (dailyBudgetOf budgetVar), r)"
  by (simp add: checkCostSentinel_def Let_def)

lemma checkCostSentinel_allows:
  "\<not> daily (costs r) + estimateRequestCost tier message > dailyBudgetOf budgetVar \<Longrightarrow>
     checkCostSentinel budgetVar tier message r =
       (Allowed (estimateRequestCost tier message)
          (dailyBudgetOf budgetVar - (daily (costs r) + estimateRequestCost tier message)),
        r\<lparr>costs := (costs r)\<lparr>daily := daily (costs r) + estimateRequestCost tier message,
                              requests := requests (costs r) + 1\<rparr>\<rparr>)"
  by (simp add: checkCostSentinel_def Let_def)

lemma longMessage_cost: "estimateRequestCost (interactive initQoSTiers) longMessage = 3"
  by (simp add: estimateRequestCost_def initQoSTiers_def longMessage_def)

text \<open>
  Claim C5. With a daily budget of 10 and an estimate of 3 for the request, four checks
  in a row from a ledger with nothing spent are answered: allowed with 7, 4 and 1 left,
  then refused with the spend 9, the estimate 3 and the budget 10, the ledger staying as
  the third check left it (9 spent, three requests more than at the start). After
  \<open>resetDailyCosts\<close> the next check is allowed again.
\<close>

theorem budget_admits_three_then_refuses:
  assumes "estimateRequestCost tier message = 3"
    and "dailyBudgetOf budgetVar = 10"
    and "daily (costs r0) = 0"
    and "checkCostSentinel budgetVar tier message r0 = (c1, r1)"
    and "checkCostSentinel budgetVar tier message r1 = (c2, r2)"
    and "checkCostSentinel budgetVar tier message r2 = (c3, r3)"
    and "checkCostSentinel budgetVar tier message r3 = (c4, r4)"
    and "checkCostSentinel budgetVar tier message (resetDailyCosts r4) = (c5, r5)"
  shows "c1 = Allowed 3 7 \<and> c2 = Allowed 3 4 \<and> c3 = Allowed 3 1 \<and>
         c4 = Refused 9 3 10 \<and> r4 = r3 \<and> daily (costs r3) = 9 \<and>
         requests (costs r3) = requests (costs r0) + 3 \<and>
         c5 = Allowed 3 7 \<and> daily (costs r5) = 3 \<and> requests (costs r5) = 1"
proof -
  from assms(1-4) have 1: "c1 = Allowed 3 7" "daily (costs r1) = 3"
    "requests (costs r1) = requests (costs r0) + 1"
    by (auto simp: checkCostSentinel_def Let_def)
  from assms(1,2,5) 1 have 2: "c2 = Allowed 3 4" "daily (costs r2) = 6"
    "requests (costs r2) = requests (costs r0) + 2"
    by (auto simp: checkCostSentinel_def Let_def)
  from assms(1,2,6) 2 have 3: "c3 = Allowed 3 1" "daily (costs r3) = 9"
    "requests (costs r3) = requests (costs r0) + 3"
    by (auto simp: checkCostSentinel_def Let_def)
  from assms(1,2,7) 3 have 4: "c4 = Refused 9 3 10" "r4 = r3"
    by (auto simp: checkCostSentinel_def Let_def)
  from assms(1,2,8) have 5: "c5 = Allowed 3 7" "daily (costs r5) = 3" "requests (costs r5) = 1"
    by (auto simp: checkCostSentinel_def resetDailyCosts_def Let_def)
  from 1 2 3 4 5 show ?thesis by simp
qed

theorem budget_admits_three_then_refuses_witness:
  "estimateRequestCost (interactive initQoSTiers) longMessage = 3 \<and>
   dailyBudgetOf None = 10 \<and>
   daily (costs (afterChecks 0)) = 0 \<and>
   fst (checkCostSentinel None (interactive initQoSTiers) longMessage (afterChecks 0)) = Allowed 3 7 \<and>
   fst (checkCostSentinel None (interactive initQoSTiers) longMessage (afterChecks 1)) = Allowed 3 4 \<and>
   fst (checkCostSentinel None (interactive initQoSTiers) longMessage (afterChecks 2)) = Allowed 3 1 \<and>
   fst (checkCostSentinel None (interactive initQoSTiers) longMessage (afterChecks 3)) = Refused 9 3 10 \<and>
   afterChecks 4 = afterChecks 3 \<and>
   fst (checkCostSentinel None (interactive initQoSTiers) longMessage (resetDailyCosts (afterChecks 4)))
     = Allowed 3 7"
proof -
  let ?check = "checkCostSentinel None (interactive initQoSTiers) longMessage"
  have b: "dailyBudgetOf None = 10" by (simp add: dailyBudgetOf_def)
  have z: "daily (costs (afterChecks 0)) = 0" by (simp add: newRouter_def)
  have s: "?check (afterChecks n) = (fst (?check (afterChecks n)), afterChecks (Suc n))" for n
    by simp
  have l: "?check (resetDailyCosts (afterChecks 4)) =
             (fst (?check (resetDailyCosts (afterChecks 4))),
              snd (?check (resetDailyCosts (afterChecks 4))))"
    by simp
  have n: "Suc 0 = (1::nat)" "Suc 1 = (2::nat)" "Suc 2 = (3::nat)" "Suc 3 = (4::nat)"
    by simp_all
  from budget_admits_three_then_refuses
         [OF longMessage_cost b z s [of 0, unfolded n] s [of 1, unfolded n] s [of 2, unfolded n]
            s [of 3, unfolded n] l]
  show ?thesis using b z longMessage_cost by blast
qed


text \<open>
  Claim C10. When the spend so far plus the estimate exceeds the budget, the check
  answers with a refusal that reports the three numbers and returns the router it was
  given; and whenever the answer is a refusal, the router returned is the one given, so
  neither the daily spend nor the request count has moved.
\<close>

theorem refusal_leaves_ledger:
  "(daily (costs r) + estimateRequestCost tier message > dailyBudgetOf budgetVar \<longrightarrow>
      checkCostSentinel budgetVar tier message r =
        (Refused (daily (costs r)) (estimateRequestCost tier message) (dailyBudgetOf budgetVar), r)) \<and>
   (\<forall>spend cost budget r'.
      checkCostSentinel budgetVar tier message r = (Refused spend cost budget, r') \<longrightarrow>
        r' = r \<and> daily (costs r') = daily (costs r) \<and> requests (costs r') = requests (costs r))"
  by (auto simp: checkCostSentinel_def Let_def)

theorem refusal_leaves_ledger_witness:
  "daily (costs (afterChecks 3)) + estimateRequestCost (interactive initQoSTiers) longMessage
     > dailyBudgetOf None \<and>
   checkCostSentinel None (interactive initQoSTiers) longMessage (afterChecks 3) =
     (Refused 9 3 10, afterChecks 3)"
proof -
  have d: "daily (costs (afterChecks 3)) = 9"
    by (simp add: numeral_eq_Suc checkCostSentinel_def longMessage_cost dailyBudgetOf_def
          newRouter_def Let_def)
  have g: "daily (costs (afterChecks 3)) + estimateRequestCost (interactive initQoSTiers) longMessage
     > dailyBudgetOf None"
    by (simp add: d longMessage_cost dailyBudgetOf_def)
  with refusal_leaves_ledger [where r = "afterChecks 3" and tier = "interactive initQoSTiers"
         and message = longMessage and budgetVar = None]
  show ?thesis by (simp add: d longMessage_cost dailyBudgetOf_def)
qed

subsection \<open>The intent cache\<close>









subsection \<open>Memory decay\<close>

lemma sweep_old:
  "(key, v) \<in> set (sweep maxAge now store) \<Longrightarrow> now - timestamp v \<le> maxAge"
  by (auto simp: sweep_def)

lemma cleanupMemory_shortTerm:
  "shortTerm (memoryStore (cleanupMemory ShortTerm now r)) =
     sweep (decayShortTerm (decayOf (memoryStore r))) now (shortTerm (memoryStore r))"
  by (simp add: cleanupMemory_def Let_def)

lemma cleanupMemory_pins:
  "pins (memoryStore (cleanupMemory type now r)) = pins (memoryStore r)"
  by (cases type) (simp_all add: cleanupMemory_def Let_def)

lemma ctxShortTerm_subset:
  "set (ctxShortTerm (assembleMemoryContext message i r)) \<subseteq> snd ` set (shortTerm (memoryStore r))"
  by (auto simp: assembleMemoryContext_def Let_def dest: in_set_dropD)

text \<open>
  Claim C9, as amended. Assembling the context applies no test of age; items leave
  short-term memory in \<open>cleanupMemory\<close>, which every short-term insert runs and which the
  server's scheduled cleanup calls. In the context assembled from the memory that a sweep
  at time \<open>now\<close> has left, no short-term item is older than the short-term horizon, so an
  item whose age exceeded the horizon at the sweep is absent; and the pins, which no sweep
  touches, are all in the context.
\<close>

theorem swept_item_absent_pins_kept:
  "(\<forall>v \<in> set (ctxShortTerm (assembleMemoryContext message i (cleanupMemory ShortTerm now r))).
      now - timestamp v \<le> decayShortTerm (decayOf (memoryStore r))) \<and>
   (\<forall>v. now - timestamp v > decayShortTerm (decayOf (memoryStore r)) \<longrightarrow>
      v \<notin> set (ctxShortTerm (assembleMemoryContext message i (cleanupMemory ShortTerm now r)))) \<and>
   ctxPins (assembleMemoryContext message i (cleanupMemory type now r)) = pins (memoryStore r)"
proof -
  let ?h = "decayShortTerm (decayOf (memoryStore r))"
  let ?ctx = "assembleMemoryContext message i (cleanupMemory ShortTerm now r)"
  have young: "now - timestamp v \<le> ?h" if "v \<in> set (ctxShortTerm ?ctx)" for v
  proof -
    from that ctxShortTerm_subset [of message i "cleanupMemory ShortTerm now r"]
    obtain key where "(key, v) \<in> set (sweep ?h now (shortTerm (memoryStore r)))"
      by (auto simp: cleanupMemory_shortTerm)
    then show ?thesis by (rule sweep_old)
  qed
  have "ctxPins (assembleMemoryContext message i (cleanupMemory type now r)) = pins (memoryStore r)"
    by (simp add: assembleMemoryContext_def Let_def cleanupMemory_pins)
  with young show ?thesis by fastforce
qed

lemma withOneItem_store:
  "shortTerm (memoryStore withOneItem) = [(''turn-1'', \<lparr>timestamp = 0, content = ''hello''\<rparr>)]"
  by (simp add: withOneItem_def storeShortTermMemory_def cleanupMemory_def sweep_def newRouter_def
        initMemoryShaping_def Let_def)

lemma withItemAndPin_store:
  "shortTerm (memoryStore withItemAndPin) = [(''turn-1'', \<lparr>timestamp = 0, content = ''hello''\<rparr>)]"
  "pins (memoryStore withItemAndPin) = [\<lparr>pinnedContent = ''remember this'', pinnedAt = 0\<rparr>]"
  "decayShortTerm (decayOf (memoryStore withItemAndPin)) = 3600000"
  by (simp_all add: withItemAndPin_def pinToMemory_def withOneItem_store)
     (simp_all add: withOneItem_def storeShortTermMemory_def cleanupMemory_def newRouter_def
        initMemoryShaping_def Let_def)

theorem swept_item_absent_pins_kept_witness:
  "(7200000::int) - timestamp \<lparr>timestamp = 0, content = ''hello''\<rparr>
     > decayShortTerm (decayOf (memoryStore withItemAndPin)) \<and>
   \<lparr>timestamp = 0, content = ''hello''\<rparr> \<in> snd ` set (shortTerm (memoryStore withItemAndPin)) \<and>
   \<lparr>timestamp = 0, content = ''hello''\<rparr> \<notin>
     set (ctxShortTerm (assembleMemoryContext ''hi'' urgentResearch
            (cleanupMemory ShortTerm 7200000 withItemAndPin))) \<and>
   ctxPins (assembleMemoryContext ''hi'' urgentResearch (cleanupMemory ShortTerm 7200000 withItemAndPin))
     = [\<lparr>pinnedContent = ''remember this'', pinnedAt = 0\<rparr>]"
proof -
  have old: "(7200000::int) - timestamp \<lparr>timestamp = 0, content = ''hello''\<rparr>
     > decayShortTerm (decayOf (memoryStore withItemAndPin))"
    by (simp add: withItemAndPin_store)
  from swept_item_absent_pins_kept [where r = withItemAndPin and now = 7200000
         and message = "''hi''" and i = urgentResearch and type = ShortTerm] old
  show ?thesis by (simp add: withItemAndPin_store)
qed

text \<open>
  Claim C9 as the specification words it does not hold: an item stored at time 0 is in
  the assembled context whenever that is assembled, two hours later as well, as long
  as no sweep has run in between; \<open>assembleMemoryContext\<close> reads no clock.
\<close>

theorem stale_item_still_assembled:
  "(7200000::int) - timestamp \<lparr>timestamp = 0, content = ''hello''\<rparr>
     > decayShortTerm (decayOf (memoryStore withOneItem)) \<and>
   pins (memoryStore withOneItem) = [] \<and>
   ctxShortTerm (assembleMemoryContext ''hi'' urgentResearch withOneItem) =
     [\<lparr>timestamp = 0, content = ''hello''\<rparr>]"
proof -
  have "decayShortTerm (decayOf (memoryStore withOneItem)) = 3600000"
    "pins (memoryStore withOneItem) = []"
    by (simp_all add: withOneItem_def storeShortTermMemory_def cleanupMemory_def newRouter_def
        initMemoryShaping_def Let_def)
  then show ?thesis
    by (simp add: assembleMemoryContext_def Let_def withOneItem_store)
qed

end
